theory Spec2Isabelle
  imports Complex_Main
begin

section \<open>The icon generator \<^verbatim>\<open>scripts/gen_icon.py\<close>\<close>

text \<open>
  The script renders ten square PNG images by handing a Swift program (built by an
  f-string) to \<^verbatim>\<open>/usr/bin/swift -e\<close>, then packs them with \<^verbatim>\<open>iconutil\<close>.
  Everything outside the script (the filesystem, the child processes, standard output)
  is modelled by an explicit world state and an environment that says how the outside
  answers.
\<close>

subsection \<open>Module constants\<close>

definition ICONSET :: string where
  "ICONSET = ''build/AppIcon.iconset''"

definition ICNS_OUT :: string where
  "ICNS_OUT = ''Resources/AppIcon.icns''"

definition SIZES :: "(string \<times> int) list" where
  "SIZES =
    [(''icon_16x16.png'', 16),
     (''icon_16x16@2x.png'', 32),
     (''icon_32x32.png'', 32),
     (''icon_32x32@2x.png'', 64),
     (''icon_128x128.png'', 128),
     (''icon_128x128@2x.png'', 256),
     (''icon_256x256.png'', 256),
     (''icon_256x256@2x.png'', 512),
     (''icon_512x512.png'', 512),
     (''icon_512x512@2x.png'', 1024)]"

subsection \<open>The Python library functions the script calls\<close>

text \<open>\<^verbatim>\<open>str\<close> on an \<^verbatim>\<open>int\<close>, which is what \<^verbatim>\<open>{size}\<close> in an f-string produces: decimal
  digits, most significant first, with a minus sign for a negative number.\<close>

fun str_nat :: "nat \<Rightarrow> string" where
  "str_nat n =
     (if n < 10 then [''0123456789'' ! n]
      else str_nat (n div 10) @ [''0123456789'' ! (n mod 10)])"

declare str_nat.simps [simp del]

definition str_int :: "int \<Rightarrow> string" where
  "str_int i = (if i < 0 then ''-'' @ str_nat (nat (- i)) else str_nat (nat i))"

text \<open>\<^verbatim>\<open>os.path.join(a, b)\<close> of \<^verbatim>\<open>posixpath\<close>: an absolute \<^verbatim>\<open>b\<close> replaces \<^verbatim>\<open>a\<close>; otherwise
  the parts are joined with one separator unless \<^verbatim>\<open>a\<close> is empty or ends in one.\<close>

definition path_join :: "string \<Rightarrow> string \<Rightarrow> string" where
  "path_join a b =
     (if b \<noteq> [] \<and> hd b = CHR ''/'' then b
      else if a = [] \<or> last a = CHR ''/'' then a @ b
      else a @ ''/'' @ b)"

text \<open>\<^verbatim>\<open>os.path.dirname(p)\<close> of \<^verbatim>\<open>posixpath\<close>: the text up to the last separator, with
  trailing separators stripped unless it consists of separators only.\<close>

definition dirname :: "string \<Rightarrow> string" where
  "dirname p =
     (let head = rev (dropWhile (\<lambda>c. c \<noteq> CHR ''/'') (rev p))
      in if head \<noteq> [] \<and> head \<noteq> replicate (length head) (CHR ''/'')
         then rev (dropWhile (\<lambda>c. c = CHR ''/'') (rev head))
         else head)"

subsection \<open>The drawing program built by \<^verbatim>\<open>generate_png\<close>\<close>

text \<open>
  The f-string of \<^verbatim>\<open>generate_png\<close>, line by line. It opens with a line break, every
  line ends with one, the doubled braces of the source are single braces in the text,
  and the two placeholders are \<^verbatim>\<open>{size}\<close> (second line) and \<^verbatim>\<open>{path}\<close> (last line).
\<close>

definition template_head :: "string list" where
  "template_head =
    ['''',
     ''import Cocoa'']"

definition template_body :: "string list" where
  "template_body =
    [''let img = NSImage(size: NSSize(width: size, height: size))'',
     ''img.lockFocus()'',
     ''let ctx = NSGraphicsContext.current!.cgContext'',
     ''let s = CGFloat(size)'',
     ''let inset: CGFloat = s * 0.05'',
     ''let rect = CGRect(x: inset, y: inset, width: s - inset*2, height: s - inset*2)'',
     ''let radius: CGFloat = s * 0.22'',
     ''let bgPath = CGPath(roundedRect: rect, cornerWidth: radius, cornerHeight: radius, transform: nil)'',
     ''ctx.addPath(bgPath)'',
     ''ctx.setFillColor(red: 0.16, green: 0.47, blue: 1.0, alpha: 1.0)'',
     ''ctx.fillPath()'',
     ''let cardW = s * 0.52; let cardH = s * 0.46'',
     ''let cardX = (s - cardW) / 2; let cardY = s * 0.34'',
     ''let cardRect = CGRect(x: cardX, y: cardY, width: cardW, height: cardH)'',
     ''let cardRadius = s * 0.03'',
     ''let cardPath = CGPath(roundedRect: cardRect, cornerWidth: cardRadius, cornerHeight: cardRadius, transform: nil)'',
     ''ctx.addPath(cardPath)'',
     ''ctx.setFillColor(red: 1, green: 1, blue: 1, alpha: 0.95)'',
     ''ctx.fillPath()'',
     ''let pinW = s * 0.06; let pinH = s * 0.14'',
     ''let pins: [CGFloat] = [cardX + cardW * 0.18, cardX + cardW * 0.43, cardX + cardW * 0.65]'',
     ''for px in pins {'',
     ''    ctx.addRect(CGRect(x: px, y: cardY + cardH - pinH - s*0.03, width: pinW, height: pinH))'',
     ''}'',
     ''ctx.setFillColor(red: 0.16, green: 0.47, blue: 1.0, alpha: 1.0)'',
     ''ctx.fillPath()'',
     ''let cx = s * 0.5; let ay = s * 0.12; let az = s * 0.15'',
     ''ctx.move(to: CGPoint(x: cx, y: ay))'',
     ''ctx.addLine(to: CGPoint(x: cx - az*0.7, y: ay + az*0.7))'',
     ''ctx.addLine(to: CGPoint(x: cx - az*0.25, y: ay + az*0.7))'',
     ''ctx.addLine(to: CGPoint(x: cx - az*0.25, y: ay + az*1.3))'',
     ''ctx.addLine(to: CGPoint(x: cx + az*0.25, y: ay + az*1.3))'',
     ''ctx.addLine(to: CGPoint(x: cx + az*0.25, y: ay + az*0.7))'',
     ''ctx.addLine(to: CGPoint(x: cx + az*0.7, y: ay + az*0.7))'',
     ''ctx.closePath()'',
     ''ctx.setFillColor(red: 1, green: 1, blue: 1, alpha: 0.9)'',
     ''ctx.fillPath()'',
     ''img.unlockFocus()'',
     ''let tiff = img.tiffRepresentation!'',
     ''let rep = NSBitmapImageRep(data: tiff)!'',
     ''let png = rep.representation(using: .png, properties: [:])!'']"

definition swift_lines :: "string \<Rightarrow> int \<Rightarrow> string list" where
  "swift_lines path sz =
     template_head
     @ [''let size = '' @ str_int sz]
     @ template_body
     @ [''try! png.write(to: URL(fileURLWithPath: '' @ [CHR 0x22] @ path @ [CHR 0x22] @ ''))'']"

definition swift_code :: "string \<Rightarrow> int \<Rightarrow> string" where
  "swift_code path sz = concat (map (\<lambda>l. l @ [CHR 0x0A]) (swift_lines path sz))"

subsection \<open>Errors, observable events and the world outside the script\<close>

text \<open>
  The exceptions the script can raise. None of them is caught anywhere in the script, so
  each is a result of the function that raises it and of every caller.
\<close>

datatype error =
    CalledProcessError int "string list"
  | ChildNotStarted "string list"
  | MakedirsError string

text \<open>What the script does to the outside, in the order it does it.\<close>

datatype event =
    Makedirs string
  | Print string
  | Spawn "string list"

text \<open>How a child process ends: with a return code, or not started at all (no such
  program), in which case \<^verbatim>\<open>subprocess.run\<close> raises an \<^verbatim>\<open>OSError\<close>. A child that never
  ends is left out: the script sets no timeout and would wait for it forever.\<close>

datatype outcome =
    Exited int
  | NotStarted

text \<open>
  The environment fixes how the outside answers: whether creating a directory fails, and
  how the \<open>k\<close>-th child process of the run (counted from 0) ends, given its argument
  list. The same command may end differently at another position of the run.
\<close>

record env =
  mkdir_fails :: "string \<Rightarrow> bool"
  child :: "nat \<Rightarrow> string list \<Rightarrow> outcome"

record world =
  dirs :: "string set"
  trace :: "event list"

definition start :: "string set \<Rightarrow> world" where
  "start d = \<lparr>dirs = d, trace = []\<rparr>"

fun spawned :: "event list \<Rightarrow> string list list" where
  "spawned [] = []"
| "spawned (Spawn argv # es) = argv # spawned es"
| "spawned (Makedirs p # es) = spawned es"
| "spawned (Print s # es) = spawned es"

text \<open>\<^verbatim>\<open>os.makedirs(p, exist_ok=True)\<close>: nothing to do and no error when the directory
  exists; otherwise it is created, or the call raises. (The library creates missing
  intermediate directories as well; the world records the leaf.)\<close>

definition makedirs :: "env \<Rightarrow> world \<Rightarrow> string \<Rightarrow> world \<times> (error + unit)" where
  "makedirs e w p =
     (let w' = w\<lparr>trace := trace w @ [Makedirs p]\<rparr>
      in if p \<in> dirs w then (w', Inr ())
         else if mkdir_fails e p then (w', Inl (MakedirsError p))
         else (w'\<lparr>dirs := insert p (dirs w)\<rparr>, Inr ()))"

definition print :: "world \<Rightarrow> string \<Rightarrow> world" where
  "print w s = w\<lparr>trace := trace w @ [Print s]\<rparr>"

text \<open>\<^verbatim>\<open>subprocess.run(argv, check=True)\<close>: blocks until the child ends and raises
  \<^verbatim>\<open>CalledProcessError\<close> on a return code other than 0.\<close>

definition subprocess_run :: "env \<Rightarrow> world \<Rightarrow> string list \<Rightarrow> world \<times> (error + unit)" where
  "subprocess_run e w argv =
     (let k = length (spawned (trace w));
          w' = w\<lparr>trace := trace w @ [Spawn argv]\<rparr>
      in case child e k argv of
           NotStarted \<Rightarrow> (w', Inl (ChildNotStarted argv))
         | Exited rc \<Rightarrow>
             if rc \<noteq> 0 then (w', Inl (CalledProcessError rc argv)) else (w', Inr ()))"

subsection \<open>\<^verbatim>\<open>generate_png\<close> and \<^verbatim>\<open>main\<close>\<close>

definition generate_png :: "env \<Rightarrow> world \<Rightarrow> string \<Rightarrow> int \<Rightarrow> world \<times> (error + unit)" where
  "generate_png e w path sz =
     subprocess_run e w [''/usr/bin/swift'', ''-e'', swift_code path sz]"

text \<open>The \<^verbatim>\<open>for name, size in SIZES\<close> loop of \<^verbatim>\<open>main\<close>, over the entries still to do.\<close>

fun main_loop :: "env \<Rightarrow> world \<Rightarrow> (string \<times> int) list \<Rightarrow> world \<times> (error + unit)" where
  "main_loop e w [] = (w, Inr ())"
| "main_loop e w ((name, sz) # rest) =
     (let out = path_join ICONSET name;
          w1 = print w (''  '' @ name @ '' ('' @ str_int sz @ ''x'' @ str_int sz @ '')...'' @ '' '')
      in case generate_png e w1 out sz of
           (w2, Inl err) \<Rightarrow> (w2, Inl err)
         | (w2, Inr u) \<Rightarrow> main_loop e (print w2 (''OK'' @ [CHR 0x0A])) rest)"

definition main :: "env \<Rightarrow> world \<Rightarrow> world \<times> (error + unit)" where
  "main e w =
     (case makedirs e w ICONSET of
        (w1, Inl err) \<Rightarrow> (w1, Inl err)
      | (w1, Inr u1) \<Rightarrow>
     (case makedirs e w1 (dirname ICNS_OUT) of
        (w2, Inl err) \<Rightarrow> (w2, Inl err)
      | (w2, Inr u2) \<Rightarrow>
     (case main_loop e w2 SIZES of
        (w3, Inl err) \<Rightarrow> (w3, Inl err)
      | (w3, Inr u3) \<Rightarrow>
     (case subprocess_run e (print w3 (''Creating .icns...'' @ [CHR 0x0A]))
             [''iconutil'', ''-c'', ''icns'', ICONSET, ''-o'', ICNS_OUT] of
        (w4, Inl err) \<Rightarrow> (w4, Inl err)
      | (w4, Inr u4) \<Rightarrow> (print w4 (''Done: '' @ ICNS_OUT @ [CHR 0x0A]), Inr ())))))"

text \<open>The exit status of the Python process: 1 when an exception reaches the top level,
  0 when \<^verbatim>\<open>main\<close> returns.\<close>

definition exit_status :: "error + unit \<Rightarrow> int" where
  "exit_status r = (case r of Inl err \<Rightarrow> 1 | Inr u \<Rightarrow> 0)"

subsection \<open>What the drawing program draws\<close>











text \<open>The three fixed pieces of the program text, around the two substituted values.\<close>

definition template_pre :: string where
  "template_pre = concat (map (\<lambda>l. l @ [CHR 0x0A]) template_head) @ ''let size = ''"

definition template_mid :: string where
  "template_mid =
     [CHR 0x0A] @ concat (map (\<lambda>l. l @ [CHR 0x0A]) template_body)
     @ ''try! png.write(to: URL(fileURLWithPath: '' @ [CHR 0x22]"

definition template_post :: string where
  "template_post = [CHR 0x22] @ ''))'' @ [CHR 0x0A]"

subsection \<open>Vocabulary for stating what a run does\<close>

text \<open>The argument lists of the two kinds of child process, as \<^verbatim>\<open>main\<close> builds them.\<close>

definition render_argv :: "string \<times> int \<Rightarrow> string list" where
  "render_argv x = [''/usr/bin/swift'', ''-e'', swift_code (path_join ICONSET (fst x)) (snd x)]"

definition package_argv :: "string list" where
  "package_argv = [''iconutil'', ''-c'', ''icns'', ICONSET, ''-o'', ICNS_OUT]"

text \<open>The lines \<^verbatim>\<open>main\<close> prints.\<close>

definition progress_line :: "string \<times> int \<Rightarrow> string" where
  "progress_line x =
     ''  '' @ fst x @ '' ('' @ str_int (snd x) @ ''x'' @ str_int (snd x) @ '')...'' @ '' ''"

definition ok_line :: string where
  "ok_line = ''OK'' @ [CHR 0x0A]"

definition creating_line :: string where
  "creating_line = ''Creating .icns...'' @ [CHR 0x0A]"

definition done_line :: string where
  "done_line = ''Done: '' @ ICNS_OUT @ [CHR 0x0A]"

text \<open>The events of one loop iteration: when the render returns, and when it raises.\<close>

definition item_ok :: "string \<times> int \<Rightarrow> event list" where
  "item_ok x = [Print (progress_line x), Spawn (render_argv x), Print ok_line]"

definition item_fail :: "string \<times> int \<Rightarrow> event list" where
  "item_fail x = [Print (progress_line x), Spawn (render_argv x)]"

definition init_events :: "event list" where
  "init_events = [Makedirs ICONSET, Makedirs (dirname ICNS_OUT)]"

text \<open>The exception \<^verbatim>\<open>subprocess.run\<close> raises for a child that did not end with code 0.\<close>

definition child_error :: "outcome \<Rightarrow> string list \<Rightarrow> error" where
  "child_error oc argv =
     (case oc of NotStarted \<Rightarrow> ChildNotStarted argv | Exited rc \<Rightarrow> CalledProcessError rc argv)"

text \<open>A run of the script: \<^verbatim>\<open>main\<close> from a fresh process, with the directories \<open>d\<close> on
  disk. Its trace, the directories it leaves, and its result.\<close>

definition run_trace :: "env \<Rightarrow> string set \<Rightarrow> event list" where
  "run_trace e d = trace (fst (main e (start d)))"

definition run_dirs :: "env \<Rightarrow> string set \<Rightarrow> string set" where
  "run_dirs e d = dirs (fst (main e (start d)))"

definition run_result :: "env \<Rightarrow> string set \<Rightarrow> error + unit" where
  "run_result e d = snd (main e (start d))"

text \<open>The renderer commands of a trace: the spawned argument lists that start with the
  Swift interpreter.\<close>

definition renders :: "event list \<Rightarrow> string list list" where
  "renders tr = filter (\<lambda>argv. take 1 argv = [''/usr/bin/swift'']) (spawned tr)"

text \<open>Two concrete environments: one where directories can be created and exactly the
  \<open>n\<close>-th child ends with code \<open>rc\<close>, and one where no directory can be created and
  every child ends with code 0.\<close>

definition fails_at :: "nat \<Rightarrow> int \<Rightarrow> env" where
  "fails_at n rc =
     \<lparr>mkdir_fails = (\<lambda>p. False), child = (\<lambda>k argv. if k = n then Exited rc else Exited 0)\<rparr>"

definition mkdir_denied :: env where
  "mkdir_denied = \<lparr>mkdir_fails = (\<lambda>p. True), child = (\<lambda>k argv. Exited 0)\<rparr>"

text \<open>The destination a program text writes to: what stands between the double quotes
  of its closing \<^verbatim>\<open>fileURLWithPath\<close> call, that is, between the last double quote before the
  closing piece of the template and that piece.\<close>

definition quoted_path :: "string \<Rightarrow> string" where
  "quoted_path code =
     rev (takeWhile (\<lambda>c. c \<noteq> CHR 0x22) (drop (length template_post) (rev code)))"

subsection \<open>The naming convention of an icon set\<close>

text \<open>
  A file of an icon set is named \<^verbatim>\<open>icon_NxN.png\<close> or \<^verbatim>\<open>icon_NxN@2x.png\<close>, where \<open>N\<close> is the
  nominal size in decimal digits. The script never reads a name; this is the reading of
  a name that the convention prescribes, used to state what the sizes of \<^verbatim>\<open>SIZES\<close> are.
\<close>

definition is_digit :: "char \<Rightarrow> bool" where
  "is_digit c = (c \<in> set ''0123456789'')"

definition digit_value :: "char \<Rightarrow> nat" where
  "digit_value c = length (takeWhile (\<lambda>d. d \<noteq> c) ''0123456789'')"

definition decimal_value :: "string \<Rightarrow> nat" where
  "decimal_value ds = foldl (\<lambda>a c. 10 * a + digit_value c) 0 ds"

definition strip_prefix :: "string \<Rightarrow> string \<Rightarrow> string option" where
  "strip_prefix p s = (if take (length p) s = p then Some (drop (length p) s) else None)"

text \<open>The nominal size of a name, and whether it carries the \<^verbatim>\<open>@2x\<close> suffix; \<open>None\<close> for a
  name outside the convention.\<close>

definition parse_icon_name :: "string \<Rightarrow> (nat \<times> bool) option" where
  "parse_icon_name name =
     (case strip_prefix ''icon_'' name of
        None \<Rightarrow> None
      | Some r \<Rightarrow>
          (let w = takeWhile is_digit r; r1 = dropWhile is_digit r
           in case strip_prefix ''x'' r1 of
                None \<Rightarrow> None
              | Some r2 \<Rightarrow>
                  (let h = takeWhile is_digit r2; r3 = dropWhile is_digit r2
                   in if w = [] \<or> h \<noteq> w then None
                      else if r3 = ''.png'' then Some (decimal_value w, False)
                      else if r3 = ''@2x.png'' then Some (decimal_value w, True)
                      else None)))"

text \<open>An entry follows the convention when its pixel size is the nominal size of its
  name, doubled for a name with the suffix.\<close>

definition size_matches_name :: "string \<times> int \<Rightarrow> bool" where
  "size_matches_name x =
     (case parse_icon_name (fst x) of
        None \<Rightarrow> False
      | Some (n, twice) \<Rightarrow> snd x = (if twice then 2 * int n else int n))"

section \<open>Properties\<close>

subsection \<open>Auxiliary facts\<close>

lemma spawned_append: "spawned (a @ b) = spawned a @ spawned b"
  by (induction a rule: spawned.induct) simp_all

lemma spawned_items_ok: "spawned (concat (map item_ok xs)) = map render_argv xs"
  by (induction xs) (simp_all add: item_ok_def)

lemma subprocess_run_ok:
  "child e (length (spawned (trace w))) argv = Exited 0 \<Longrightarrow>
   subprocess_run e w argv = (w\<lparr>trace := trace w @ [Spawn argv]\<rparr>, Inr ())"
  by (simp add: subprocess_run_def)

lemma subprocess_run_fail:
  "child e (length (spawned (trace w))) argv = oc \<Longrightarrow> oc \<noteq> Exited 0 \<Longrightarrow>
   subprocess_run e w argv = (w\<lparr>trace := trace w @ [Spawn argv]\<rparr>, Inl (child_error oc argv))"
  by (cases oc) (auto simp add: subprocess_run_def child_error_def)

lemma main_loop_Cons:
  "main_loop e w (x # xs) =
     (case subprocess_run e (print w (progress_line x)) (render_argv x) of
        (w2, Inl err) \<Rightarrow> (w2, Inl err)
      | (w2, Inr u) \<Rightarrow> main_loop e (print w2 ok_line) xs)"
  unfolding ok_line_def progress_line_def render_argv_def
  by (cases x) (simp add: Let_def generate_png_def split: prod.split sum.split)

lemma main_loop_ok:
  "\<forall>j<length xs. child e (length (spawned (trace w)) + j) (render_argv (xs ! j)) = Exited 0 \<Longrightarrow>
   main_loop e w xs = (w\<lparr>trace := trace w @ concat (map item_ok xs)\<rparr>, Inr ())"
proof (induction xs arbitrary: w)
  case Nil
  then show ?case by simp
next
  case (Cons x xs)
  let ?w1 = "print w (progress_line x)"
  let ?w2 = "?w1\<lparr>trace := trace ?w1 @ [Spawn (render_argv x)]\<rparr>"
  let ?w3 = "print ?w2 ok_line"
  from Cons.prems have h0: "child e (length (spawned (trace ?w1))) (render_argv x) = Exited 0"
    by (auto simp add: print_def spawned_append)
  have g: "subprocess_run e ?w1 (render_argv x) = (?w2, Inr ())"
    using subprocess_run_ok [OF h0] .
  have tr3: "trace ?w3 = trace w @ item_ok x" by (simp add: print_def item_ok_def)
  have "\<forall>j<length xs. child e (length (spawned (trace ?w3)) + j) (render_argv (xs ! j)) = Exited 0"
  proof (intro allI impI)
    fix j assume "j < length xs"
    with Cons.prems have "child e (length (spawned (trace w)) + Suc j) (render_argv ((x # xs) ! Suc j)) = Exited 0"
      by (metis Suc_less_eq length_Cons)
    then show "child e (length (spawned (trace ?w3)) + j) (render_argv (xs ! j)) = Exited 0"
      by (simp add: tr3 spawned_append item_ok_def)
  qed
  from Cons.IH [OF this] have "main_loop e ?w3 xs = (?w3\<lparr>trace := trace ?w3 @ concat (map item_ok xs)\<rparr>, Inr ())" .
  then show ?case
    by (simp add: main_loop_Cons g tr3) (simp add: print_def)
qed

lemma main_loop_fail:
  "m < length xs \<Longrightarrow>
   \<forall>j<m. child e (length (spawned (trace w)) + j) (render_argv (xs ! j)) = Exited 0 \<Longrightarrow>
   child e (length (spawned (trace w)) + m) (render_argv (xs ! m)) = oc \<Longrightarrow> oc \<noteq> Exited 0 \<Longrightarrow>
   main_loop e w xs =
     (w\<lparr>trace := trace w @ concat (map item_ok (take m xs)) @ item_fail (xs ! m)\<rparr>,
      Inl (child_error oc (render_argv (xs ! m))))"
proof (induction xs arbitrary: w m)
  case Nil
  then show ?case by simp
next
  case (Cons x xs)
  let ?w1 = "print w (progress_line x)"
  let ?w2 = "?w1\<lparr>trace := trace ?w1 @ [Spawn (render_argv x)]\<rparr>"
  let ?w3 = "print ?w2 ok_line"
  have n1: "length (spawned (trace ?w1)) = length (spawned (trace w))"
    by (simp add: print_def spawned_append)
  show ?case
  proof (cases m)
    case 0
    with Cons.prems have "child e (length (spawned (trace ?w1))) (render_argv x) = oc"
      by (simp add: n1)
    from subprocess_run_fail [OF this Cons.prems(4)] show ?thesis
      by (simp add: main_loop_Cons 0 item_fail_def print_def)
  next
    case (Suc m')
    from Cons.prems(2) Suc have "child e (length (spawned (trace ?w1))) (render_argv x) = Exited 0"
      by (auto simp add: n1)
    from subprocess_run_ok [OF this] have g: "subprocess_run e ?w1 (render_argv x) = (?w2, Inr ())" .
    have tr3: "trace ?w3 = trace w @ item_ok x" by (simp add: print_def item_ok_def)
    have n3: "length (spawned (trace ?w3)) = Suc (length (spawned (trace w)))"
      by (simp add: tr3 spawned_append item_ok_def)
    have a: "m' < length xs" using Cons.prems(1) Suc by simp
    have b: "\<forall>j<m'. child e (length (spawned (trace ?w3)) + j) (render_argv (xs ! j)) = Exited 0"
    proof (intro allI impI)
      fix j assume "j < m'"
      then have "Suc j < m" using Suc by simp
      with Cons.prems(2) have "child e (length (spawned (trace w)) + Suc j) (render_argv ((x # xs) ! Suc j)) = Exited 0"
        by blast
      then show "child e (length (spawned (trace ?w3)) + j) (render_argv (xs ! j)) = Exited 0"
        by (simp add: n3)
    qed
    have c: "child e (length (spawned (trace ?w3)) + m') (render_argv (xs ! m')) = oc"
      using Cons.prems(3) Suc by (simp add: n3)
    from Cons.IH [OF a b c Cons.prems(4)] show ?thesis
      by (simp add: main_loop_Cons g Suc tr3) (simp add: print_def)
  qed
qed

lemma dirname_ICNS_OUT: "dirname ICNS_OUT = ''Resources''"
  by (simp add: dirname_def ICNS_OUT_def)

lemma makedirs_ok:
  "p \<in> dirs w \<or> \<not> mkdir_fails e p \<Longrightarrow>
   makedirs e w p = (\<lparr>dirs = insert p (dirs w), trace = trace w @ [Makedirs p]\<rparr>, Inr ())"
  by (cases "p \<in> dirs w") (simp_all add: makedirs_def Let_def insert_absorb)

lemma makedirs_fail:
  "p \<notin> dirs w \<Longrightarrow> mkdir_fails e p \<Longrightarrow>
   makedirs e w p = (\<lparr>dirs = dirs w, trace = trace w @ [Makedirs p]\<rparr>, Inl (MakedirsError p))"
  by (simp add: makedirs_def Let_def)

lemma first_failure:
  fixes P :: "nat \<Rightarrow> bool"
  shows "(\<forall>j<n. P j) \<or> (\<exists>m<n. (\<forall>j<m. P j) \<and> \<not> P m)"
proof (induction n)
  case 0
  then show ?case by simp
next
  case (Suc n)
  then show ?case
    by (metis less_Suc_eq)
qed

lemma main_cases [case_names staging_fails parent_fails render_fails package_fails success]:
  obtains
    "ICONSET \<notin> d" and "mkdir_fails e ICONSET"
      and "main e (start d) = (\<lparr>dirs = d, trace = [Makedirs ICONSET]\<rparr>, Inl (MakedirsError ICONSET))"
  | "dirname ICNS_OUT \<notin> insert ICONSET d" and "mkdir_fails e (dirname ICNS_OUT)"
      and "main e (start d) =
        (\<lparr>dirs = insert ICONSET d, trace = init_events\<rparr>, Inl (MakedirsError (dirname ICNS_OUT)))"
  | m oc where "m < length SIZES"
      and "\<forall>j<m. child e j (render_argv (SIZES ! j)) = Exited 0"
      and "child e m (render_argv (SIZES ! m)) = oc" and "oc \<noteq> Exited 0"
      and "main e (start d) =
        (\<lparr>dirs = insert (dirname ICNS_OUT) (insert ICONSET d),
          trace = init_events @ concat (map item_ok (take m SIZES)) @ item_fail (SIZES ! m)\<rparr>,
         Inl (child_error oc (render_argv (SIZES ! m))))"
  | oc where "\<forall>j<length SIZES. child e j (render_argv (SIZES ! j)) = Exited 0"
      and "child e (length SIZES) package_argv = oc" and "oc \<noteq> Exited 0"
      and "main e (start d) =
        (\<lparr>dirs = insert (dirname ICNS_OUT) (insert ICONSET d),
          trace = init_events @ concat (map item_ok SIZES) @ [Print creating_line, Spawn package_argv]\<rparr>,
         Inl (child_error oc package_argv))"
  | "\<forall>j<length SIZES. child e j (render_argv (SIZES ! j)) = Exited 0"
      and "child e (length SIZES) package_argv = Exited 0"
      and "main e (start d) =
        (\<lparr>dirs = insert (dirname ICNS_OUT) (insert ICONSET d),
          trace = init_events @ concat (map item_ok SIZES)
                  @ [Print creating_line, Spawn package_argv, Print done_line]\<rparr>,
         Inr ())"
proof (cases "ICONSET \<notin> d \<and> mkdir_fails e ICONSET")
  case True
  then have "makedirs e (start d) ICONSET =
      (\<lparr>dirs = d, trace = [Makedirs ICONSET]\<rparr>, Inl (MakedirsError ICONSET))"
    using makedirs_fail [of ICONSET "start d" e] by (simp add: start_def)
  then have "main e (start d) = (\<lparr>dirs = d, trace = [Makedirs ICONSET]\<rparr>, Inl (MakedirsError ICONSET))"
    by (simp add: main_def)
  with True that(1) show ?thesis by blast
next
  case False
  let ?w1 = "\<lparr>dirs = insert ICONSET d, trace = [Makedirs ICONSET]\<rparr>"
  from False have m1: "makedirs e (start d) ICONSET = (?w1, Inr ())"
    using makedirs_ok [of ICONSET "start d" e] by (auto simp add: start_def)
  show ?thesis
  proof (cases "dirname ICNS_OUT \<notin> insert ICONSET d \<and> mkdir_fails e (dirname ICNS_OUT)")
    case True
    then have "makedirs e ?w1 (dirname ICNS_OUT) =
        (\<lparr>dirs = insert ICONSET d, trace = init_events\<rparr>, Inl (MakedirsError (dirname ICNS_OUT)))"
      using makedirs_fail [of "dirname ICNS_OUT" ?w1 e] by (simp add: init_events_def)
    then have "main e (start d) =
        (\<lparr>dirs = insert ICONSET d, trace = init_events\<rparr>, Inl (MakedirsError (dirname ICNS_OUT)))"
      by (simp add: main_def m1)
    with True that(2) show ?thesis by blast
  next
    case False
    let ?D = "insert (dirname ICNS_OUT) (insert ICONSET d)"
    let ?w2 = "\<lparr>dirs = ?D, trace = init_events\<rparr>"
    from False have m2: "makedirs e ?w1 (dirname ICNS_OUT) = (?w2, Inr ())"
      using makedirs_ok [of "dirname ICNS_OUT" ?w1 e] by (auto simp add: init_events_def)
    have n2: "length (spawned (trace ?w2)) = 0" by (simp add: init_events_def)
    let ?P = "\<lambda>j. child e j (render_argv (SIZES ! j)) = Exited 0"
    from first_failure [of "length SIZES" ?P]
    show ?thesis
    proof
      assume all_ok: "\<forall>j<length SIZES. ?P j"
      then have "\<forall>j<length SIZES. child e (length (spawned (trace ?w2)) + j) (render_argv (SIZES ! j)) = Exited 0"
        by (simp add: init_events_def)
      from main_loop_ok [OF this]
      have l: "main_loop e ?w2 SIZES = (\<lparr>dirs = ?D, trace = init_events @ concat (map item_ok SIZES)\<rparr>, Inr ())"
        by simp
      let ?w3 = "\<lparr>dirs = ?D, trace = init_events @ concat (map item_ok SIZES)\<rparr>"
      let ?w4 = "print ?w3 creating_line"
      have n4: "length (spawned (trace ?w4)) = length SIZES"
        by (simp add: print_def spawned_append spawned_items_ok init_events_def)
      have main_eq: "main e (start d) =
        (case subprocess_run e ?w4 package_argv of
           (w4, Inl err) \<Rightarrow> (w4, Inl err)
         | (w4, Inr u4) \<Rightarrow> (print w4 done_line, Inr ()))"
        unfolding creating_line_def package_argv_def done_line_def
        by (simp add: main_def m1 m2 l split: prod.split sum.split)
      show ?thesis
      proof (cases "child e (length SIZES) package_argv = Exited 0")
        case True
        then have "child e (length (spawned (trace ?w4))) package_argv = Exited 0"
          by (simp only: n4)
        from subprocess_run_ok [OF this]
        have "main e (start d) =
          (\<lparr>dirs = ?D, trace = init_events @ concat (map item_ok SIZES)
                  @ [Print creating_line, Spawn package_argv, Print done_line]\<rparr>, Inr ())"
          by (simp add: main_eq print_def)
        with all_ok True that(5) show ?thesis by blast
      next
        case False
        have "child e (length (spawned (trace ?w4))) package_argv = child e (length SIZES) package_argv"
          by (simp only: n4)
        from subprocess_run_fail [OF this False]
        have "main e (start d) =
          (\<lparr>dirs = ?D, trace = init_events @ concat (map item_ok SIZES)
                  @ [Print creating_line, Spawn package_argv]\<rparr>,
           Inl (child_error (child e (length SIZES) package_argv) package_argv))"
          by (simp add: main_eq print_def)
        with all_ok False that(4) show ?thesis by blast
      qed
    next
      assume "\<exists>m<length SIZES. (\<forall>j<m. ?P j) \<and> \<not> ?P m"
      then obtain m where m: "m < length SIZES" "\<forall>j<m. ?P j" "\<not> ?P m" by blast
      from m(2) have a: "\<forall>j<m. child e (length (spawned (trace ?w2)) + j) (render_argv (SIZES ! j)) = Exited 0"
        by (simp add: init_events_def)
      have b: "child e (length (spawned (trace ?w2)) + m) (render_argv (SIZES ! m)) = child e m (render_argv (SIZES ! m))"
        by (simp add: init_events_def)
      from main_loop_fail [OF m(1) a b m(3)]
      have "main_loop e ?w2 SIZES =
        (\<lparr>dirs = ?D, trace = init_events @ concat (map item_ok (take m SIZES)) @ item_fail (SIZES ! m)\<rparr>,
         Inl (child_error (child e m (render_argv (SIZES ! m))) (render_argv (SIZES ! m))))"
        by simp
      then have "main e (start d) =
        (\<lparr>dirs = ?D, trace = init_events @ concat (map item_ok (take m SIZES)) @ item_fail (SIZES ! m)\<rparr>,
         Inl (child_error (child e m (render_argv (SIZES ! m))) (render_argv (SIZES ! m))))"
        by (simp add: main_def m1 m2)
      with m that(3) show ?thesis by blast
    qed
  qed
qed

lemma spawned_item_fail: "spawned (item_fail x) = [render_argv x]"
  by (simp add: item_fail_def)

lemma spawned_init_events: "spawned init_events = []"
  by (simp add: init_events_def)

lemma run_unfold:
  "main e (start d) = (w, r) \<Longrightarrow> run_trace e d = trace w \<and> run_dirs e d = dirs w \<and> run_result e d = r"
  by (simp add: run_trace_def run_dirs_def run_result_def)

lemma child_error_Exited: "child_error (Exited rc) argv = CalledProcessError rc argv"
  by (simp add: child_error_def)

lemma exit_status_Inl: "exit_status (Inl err) = 1"
  by (simp add: exit_status_def)

lemmas run_eval = run_trace_def run_result_def run_dirs_def main_def makedirs_def SIZES_def
  generate_png_def subprocess_run_def print_def start_def Let_def spawned_append fails_at_def

lemma renders_append: "renders (a @ b) = renders a @ renders b"
  by (simp add: renders_def spawned_append)

lemma renders_items_ok: "renders (concat (map item_ok xs)) = map render_argv xs"
  by (induction xs) (simp_all add: renders_def item_ok_def render_argv_def)

lemma renders_item_fail: "renders (item_fail x) = [render_argv x]"
  by (simp add: renders_def item_fail_def render_argv_def)

lemma renders_init_events: "renders init_events = []"
  by (simp add: renders_def init_events_def)

lemma renders_package: "renders (Spawn package_argv # es) = renders es"
  by (simp add: renders_def package_argv_def)

lemma renders_Print: "renders (Print s # es) = renders es"
  by (simp add: renders_def)

lemma renders_Nil: "renders [] = []"
  by (simp add: renders_def)

lemma renders_Makedirs: "renders (Makedirs p # es) = renders es"
  by (simp add: renders_def)

lemmas renders_simps = renders_append renders_items_ok renders_item_fail renders_init_events
  renders_package renders_Print renders_Nil renders_Makedirs

lemma run_renders:
  obtains m where "m \<le> length SIZES"
    and "renders (run_trace e d) = map render_argv (take m SIZES)"
    and "\<forall>j<m. child e j (render_argv (SIZES ! j)) \<noteq> Exited 0 \<longrightarrow>
           Suc j = m \<and> (\<exists>err. run_result e d = Inl err)"
proof (cases e d rule: main_cases)
  case staging_fails
  from run_unfold [OF staging_fails(3)] have "renders (run_trace e d) = map render_argv (take 0 SIZES)"
    by (simp add: renders_simps)
  with that [of 0] show ?thesis by simp
next
  case parent_fails
  from run_unfold [OF parent_fails(3)] have "renders (run_trace e d) = map render_argv (take 0 SIZES)"
    by (simp add: renders_simps)
  with that [of 0] show ?thesis by simp
next
  case (render_fails m oc)
  note u = run_unfold [OF render_fails(5)]
  have "renders (run_trace e d) = map render_argv (take m SIZES) @ [render_argv (SIZES ! m)]"
    using u by (simp add: renders_simps)
  also have "\<dots> = map render_argv (take (Suc m) SIZES)"
    using render_fails(1) by (simp add: take_Suc_conv_app_nth)
  finally have r: "renders (run_trace e d) = map render_argv (take (Suc m) SIZES)" .
  have "\<forall>j<Suc m. child e j (render_argv (SIZES ! j)) \<noteq> Exited 0 \<longrightarrow>
           Suc j = Suc m \<and> (\<exists>err. run_result e d = Inl err)"
    using render_fails(2) u by (auto simp add: less_Suc_eq)
  with r render_fails(1) that [of "Suc m"] show ?thesis by simp
next
  case (package_fails oc)
  from run_unfold [OF package_fails(4)] have "renders (run_trace e d) = map render_argv (take (length SIZES) SIZES)"
    by (simp add: renders_simps)
  with package_fails(1) that [of "length SIZES"] show ?thesis by simp
next
  case success
  from run_unfold [OF success(3)] have "renders (run_trace e d) = map render_argv (take (length SIZES) SIZES)"
    by (simp add: renders_simps)
  with success(1) that [of "length SIZES"] show ?thesis by simp
qed

lemma render_argv_neq_package: "render_argv x \<noteq> package_argv"
  by (simp add: render_argv_def package_argv_def)

lemma package_neq_render_argv: "package_argv \<noteq> render_argv x"
  by (simp add: render_argv_def package_argv_def)

lemma package_notin_renders: "package_argv \<notin> set (map render_argv xs)"
  by (induction xs) (simp_all add: package_neq_render_argv)

lemma filter_package_renders: "filter (\<lambda>a. a = package_argv) (map render_argv xs) = []"
  by (induction xs) (simp_all add: render_argv_neq_package)

lemma child_error_not_makedirs: "child_error oc argv \<noteq> MakedirsError p"
  by (cases oc) (simp_all add: child_error_def)

lemma take2_init_events: "take 2 (init_events @ es) = init_events"
  by (simp add: init_events_def)

lemma run_without_makedirs_error:
  assumes "\<forall>p. run_result e d \<noteq> Inl (MakedirsError p)"
  shows "run_dirs e d = insert (dirname ICNS_OUT) (insert ICONSET d)
       \<and> take 2 (run_trace e d) = init_events"
proof (cases e d rule: main_cases)
  case staging_fails
  from run_unfold [OF staging_fails(3)] assms show ?thesis by simp
next
  case parent_fails
  from run_unfold [OF parent_fails(3)] assms show ?thesis by simp
next
  case (render_fails m oc)
  note u = run_unfold [OF render_fails(5)]
  from u have "take 2 (run_trace e d) = init_events"
    by (simp del: take_append add: take2_init_events)
  with u show ?thesis by simp
next
  case (package_fails oc)
  note u = run_unfold [OF package_fails(4)]
  from u have "take 2 (run_trace e d) = init_events"
    by (simp del: take_append add: take2_init_events)
  with u show ?thesis by simp
next
  case success
  note u = run_unfold [OF success(3)]
  from u have "take 2 (run_trace e d) = init_events"
    by (simp del: take_append add: take2_init_events)
  with u show ?thesis by simp
qed

lemma run_with_existing_dirs:
  assumes "ICONSET \<in> d" and "dirname ICNS_OUT \<in> d"
  shows "run_result e d \<noteq> Inl (MakedirsError p) \<and> run_dirs e d = d"
proof (cases e d rule: main_cases)
  case staging_fails
  with assms show ?thesis by simp
next
  case parent_fails
  with assms show ?thesis by simp
next
  case (render_fails m oc)
  from run_unfold [OF render_fails(5)] assms show ?thesis
    by (simp add: child_error_not_makedirs insert_absorb)
next
  case (package_fails oc)
  from run_unfold [OF package_fails(4)] assms show ?thesis
    by (simp add: child_error_not_makedirs insert_absorb)
next
  case success
  from run_unfold [OF success(3)] assms show ?thesis
    by (simp add: insert_absorb)
qed

lemma run_starts_with_makedirs: "\<exists>rest. run_trace e d = Makedirs ICONSET # rest"
proof (cases e d rule: main_cases)
  case staging_fails
  from run_unfold [OF staging_fails(3)] show ?thesis by simp
next
  case parent_fails
  from run_unfold [OF parent_fails(3)] show ?thesis by (simp add: init_events_def)
next
  case (render_fails m oc)
  from run_unfold [OF render_fails(5)] show ?thesis by (simp add: init_events_def)
next
  case (package_fails oc)
  from run_unfold [OF package_fails(4)] show ?thesis by (simp add: init_events_def)
next
  case success
  from run_unfold [OF success(3)] show ?thesis by (simp add: init_events_def)
qed

lemma length_items_ok: "length (concat (map item_ok xs)) = 3 * length xs"
  by (induction xs) (simp_all add: item_ok_def)

lemma nth_items_ok:
  "j < length xs \<Longrightarrow> i < 3 \<Longrightarrow>
   (concat (map item_ok xs) @ es) ! (3 * j + i) = item_ok (xs ! j) ! i"
proof (induction xs arbitrary: j)
  case Nil
  then show ?case by simp
next
  case (Cons x xs)
  have l: "length (item_ok x) = 3" by (simp add: item_ok_def)
  show ?case
  proof (cases j)
    case 0
    with Cons.prems l show ?thesis by (simp add: nth_append)
  next
    case (Suc j')
    with Cons.prems have "j' < length xs" by simp
    from Cons.IH [OF this Cons.prems(2)]
    have "(concat (map item_ok xs) @ es) ! (3 * j' + i) = item_ok (xs ! j') ! i" .
    moreover have "3 * j + i = length (item_ok x) + (3 * j' + i)"
      using Suc l by simp
    ultimately show ?thesis
      using Suc by (simp only: concat.simps list.map append_assoc nth_append_length_plus nth_Cons_Suc)
  qed
qed

lemma nth_after_items_ok:
  "(concat (map item_ok xs) @ es) ! (3 * length xs + i) = es ! i"
  using nth_append_length_plus [of "concat (map item_ok xs)" es i]
  by (simp add: length_items_ok)

lemma nth_after_init: "(init_events @ es) ! (k + 2) = es ! k"
  using nth_append_length_plus [of init_events es k]
  by (simp add: init_events_def add.commute)

lemma item_in_trace:
  assumes "j < m" and "m \<le> length SIZES"
  shows "(init_events @ concat (map item_ok (take m SIZES)) @ es) ! (3 * j + 2)
           = Print (progress_line (SIZES ! j))"
    and "(init_events @ concat (map item_ok (take m SIZES)) @ es) ! (3 * j + 3)
           = Spawn (render_argv (SIZES ! j))"
    and "(init_events @ concat (map item_ok (take m SIZES)) @ es) ! (3 * j + 4)
           = Print ok_line"
    and "3 * j + 4 < length (init_events @ concat (map item_ok (take m SIZES)) @ es)"
proof -
  let ?tr = "init_events @ concat (map item_ok (take m SIZES)) @ es"
  have j: "j < length (take m SIZES)" using assms by simp
  have x: "take m SIZES ! j = SIZES ! j" using assms by simp
  have i0: "item_ok (take m SIZES ! j) ! 0 = Print (progress_line (SIZES ! j))"
    and i1: "item_ok (take m SIZES ! j) ! 1 = Spawn (render_argv (SIZES ! j))"
    and i2: "item_ok (take m SIZES ! j) ! 2 = Print ok_line"
    by (simp_all add: x item_ok_def)
  have n0: "(3 * j + 0) + 2 = 3 * j + 2" and n1: "(3 * j + 1) + 2 = 3 * j + 3"
    and n2: "(3 * j + 2) + 2 = 3 * j + 4"
    by simp_all
  have "?tr ! ((3 * j + 0) + 2) = item_ok (take m SIZES ! j) ! 0"
    using nth_items_ok [OF j, of 0 es] by (simp only: nth_after_init)
  then show "?tr ! (3 * j + 2) = Print (progress_line (SIZES ! j))"
    by (simp only: n0 i0)
  have "?tr ! ((3 * j + 1) + 2) = item_ok (take m SIZES ! j) ! 1"
    using nth_items_ok [OF j, of 1 es] by (simp only: nth_after_init)
  then show "?tr ! (3 * j + 3) = Spawn (render_argv (SIZES ! j))"
    by (simp only: n1 i1)
  have "?tr ! ((3 * j + 2) + 2) = item_ok (take m SIZES ! j) ! 2"
    using nth_items_ok [OF j, of 2 es] by (simp only: nth_after_init)
  then show "?tr ! (3 * j + 4) = Print ok_line"
    by (simp only: n2 i2)
  show "3 * j + 4 < length ?tr"
    using assms by (simp add: length_items_ok init_events_def)
qed

lemma failing_item_in_trace:
  assumes "m < length SIZES"
  shows "(init_events @ concat (map item_ok (take m SIZES)) @ item_fail (SIZES ! m)) ! (3 * m + 2)
           = Print (progress_line (SIZES ! m))"
    and "(init_events @ concat (map item_ok (take m SIZES)) @ item_fail (SIZES ! m)) ! (3 * m + 3)
           = Spawn (render_argv (SIZES ! m))"
    and "3 * m + 3 < length (init_events @ concat (map item_ok (take m SIZES)) @ item_fail (SIZES ! m))"
proof -
  let ?tr = "init_events @ concat (map item_ok (take m SIZES)) @ item_fail (SIZES ! m)"
  have l: "length (take m SIZES) = m" using assms by simp
  have n0: "(3 * m + 0) + 2 = 3 * m + 2" and n1: "(3 * m + 1) + 2 = 3 * m + 3"
    by simp_all
  have "?tr ! ((3 * m + 0) + 2) = item_fail (SIZES ! m) ! 0"
    using nth_after_items_ok [of "take m SIZES" "item_fail (SIZES ! m)" 0]
    by (simp only: nth_after_init l)
  then show "?tr ! (3 * m + 2) = Print (progress_line (SIZES ! m))"
    by (simp only: n0) (simp add: item_fail_def)
  have "?tr ! ((3 * m + 1) + 2) = item_fail (SIZES ! m) ! 1"
    using nth_after_items_ok [of "take m SIZES" "item_fail (SIZES ! m)" 1]
    by (simp only: nth_after_init l)
  then show "?tr ! (3 * m + 3) = Spawn (render_argv (SIZES ! m))"
    by (simp only: n1) (simp add: item_fail_def)
  show "3 * m + 3 < length ?tr"
    using assms by (simp add: length_items_ok init_events_def item_fail_def)
qed

lemma done_line_text: "done_line = ''Done: Resources/AppIcon.icns'' @ [CHR 0x0A]"
  by (simp add: done_line_def ICNS_OUT_def)


lemma swift_code_template:
  "swift_code path sz = template_pre @ str_int sz @ template_mid @ path @ template_post"
  by (simp add: swift_code_def swift_lines_def template_pre_def template_mid_def template_post_def)









lemma run_renders_reach:
  assumes nomk: "\<forall>p. run_result e d \<noteq> Inl (MakedirsError p)"
    and j: "j < length SIZES"
    and before: "\<forall>i<j. child e i (render_argv (SIZES ! i)) = Exited 0"
  shows "j < length (renders (run_trace e d))"
proof (cases e d rule: main_cases)
  case staging_fails
  from run_unfold [OF staging_fails(3)] nomk show ?thesis by simp
next
  case parent_fails
  from run_unfold [OF parent_fails(3)] nomk show ?thesis by simp
next
  case (render_fails m oc)
  note u = run_unfold [OF render_fails(5)]
  have n: "length (renders (run_trace e d)) = Suc m"
    using u render_fails(1) by (simp add: renders_simps)
  have "\<not> m < j"
  proof
    assume "m < j"
    with before have "child e m (render_argv (SIZES ! m)) = Exited 0" by blast
    with render_fails(3,4) show False by simp
  qed
  with n show ?thesis by simp
next
  case (package_fails oc)
  from run_unfold [OF package_fails(4)] j show ?thesis by (simp add: renders_simps)
next
  case success
  from run_unfold [OF success(3)] j show ?thesis by (simp add: renders_simps)
qed

lemma takeWhile_until: "c \<notin> set xs \<Longrightarrow> takeWhile (\<lambda>d. d \<noteq> c) (xs @ c # ys) = xs"
  by (induction xs) auto

lemma quoted_path_swift_code:
  assumes "CHR 0x22 \<notin> set p"
  shows "quoted_path (swift_code p sz) = p"
proof -
  have r: "rev (swift_code p sz)
      = rev template_post @ rev p @ [CHR 0x22] @ rev (template_pre @ str_int sz @
          [CHR 0x0A] @ concat (map (\<lambda>l. l @ [CHR 0x0A]) template_body)
          @ ''try! png.write(to: URL(fileURLWithPath: '')"
    by (simp add: swift_code_template template_mid_def)
  have "takeWhile (\<lambda>c. c \<noteq> CHR 0x22) (rev p @ [CHR 0x22] @ xs) = rev p" for xs
    using assms takeWhile_until [of "CHR 0x22" "rev p" xs] by simp
  then show ?thesis
    unfolding quoted_path_def r by simp
qed

lemma render_argv_template:
  "render_argv x =
     [''/usr/bin/swift'', ''-e'',
      template_pre @ str_int (snd x) @ template_mid @ path_join ICONSET (fst x) @ template_post]"
  by (simp add: render_argv_def swift_code_template)

lemma destinations_under_ICONSET:
  "map (\<lambda>x. path_join ICONSET (fst x)) SIZES = map (\<lambda>x. ICONSET @ ''/'' @ fst x) SIZES"
  by (simp add: SIZES_def path_join_def ICONSET_def)

lemma quoted_paths_of_renders:
  "map (\<lambda>argv. quoted_path (argv ! 2)) (map render_argv SIZES)
     = map (\<lambda>x. path_join ICONSET (fst x)) SIZES"
proof -
  have "CHR 0x22 \<notin> set (path_join ICONSET (fst x))" if "x \<in> set SIZES" for x
    using that by (auto simp add: SIZES_def path_join_def ICONSET_def)
  then show ?thesis
    by (simp add: render_argv_def quoted_path_swift_code)
qed

lemma distinct_destinations: "distinct (map (\<lambda>x. path_join ICONSET (fst x)) SIZES)"
  by (simp add: SIZES_def path_join_def ICONSET_def)

lemma distinct_render_argv: "distinct (map render_argv SIZES)"
proof -
  have "distinct (map (\<lambda>argv. quoted_path (argv ! 2)) (map render_argv SIZES))"
    unfolding quoted_paths_of_renders by (rule distinct_destinations)
  then show ?thesis by (simp only: distinct_map)
qed

subsection \<open>The claims\<close>




text \<open>
  Claim C2. \<^verbatim>\<open>SIZES\<close> has exactly ten entries. Every name follows the naming convention;
  the nominal sizes are 16, 32, 128, 256 and 512, each once without and once with the
  \<^verbatim>\<open>@2x\<close> suffix; and every pixel size is the nominal size of its name, doubled when the
  name carries the suffix.
\<close>

theorem sizes_follow_naming_convention:
  "length SIZES = 10
   \<and> map (\<lambda>x. parse_icon_name (fst x)) SIZES =
       [Some (16, False), Some (16, True), Some (32, False), Some (32, True),
        Some (128, False), Some (128, True), Some (256, False), Some (256, True),
        Some (512, False), Some (512, True)]
   \<and> list_all size_matches_name SIZES"
  by (simp add: SIZES_def size_matches_name_def parse_icon_name_def strip_prefix_def
      is_digit_def decimal_value_def digit_value_def Let_def)

text \<open>
  Claim C3, as stated: eleven hard-coded entries. The list has ten.
\<close>

theorem SIZES_not_eleven: "length SIZES \<noteq> 11"
  by (simp add: SIZES_def)

text \<open>
  Claim C3, amended. There are ten hard-coded entries, and every run reads the same ten:
  whatever the outside does, the entries a run renders are an initial segment of
  \<^verbatim>\<open>SIZES\<close>. (The script has no statement that assigns to or mutates \<^verbatim>\<open>SIZES\<close>; in the
  model it is a constant and not a part of the state.)
\<close>

theorem SIZES_ten_and_fixed:
  "length SIZES = 10
   \<and> (\<exists>m\<le>length SIZES. renders (run_trace e d) = map render_argv (take m SIZES))"
proof -
  obtain m where "m \<le> length SIZES" "renders (run_trace e d) = map render_argv (take m SIZES)"
    by (rule run_renders)
  then show ?thesis by (auto simp add: SIZES_def)
qed

text \<open>
  Claim C4. Whichever child process of a run (a renderer or the packager) ends with a
  return code other than 0, the \<^verbatim>\<open>CalledProcessError\<close> for that very invocation is the
  result of the whole run: nothing catches it, the failing invocation is the last thing
  the run does (so there is no retry and nothing follows), and the process exit status
  is not 0.
\<close>

theorem nonzero_exit_is_fatal:
  assumes k: "k < length (spawned (run_trace e d))"
    and oc: "child e k (spawned (run_trace e d) ! k) = Exited rc"
    and rc: "rc \<noteq> 0"
  shows "run_result e d = Inl (CalledProcessError rc (spawned (run_trace e d) ! k))
       \<and> last (run_trace e d) = Spawn (spawned (run_trace e d) ! k)
       \<and> Suc k = length (spawned (run_trace e d))
       \<and> exit_status (run_result e d) \<noteq> 0"
proof (cases e d rule: main_cases)
  case staging_fails
  from run_unfold [OF staging_fails(3)] k show ?thesis by simp
next
  case parent_fails
  from run_unfold [OF parent_fails(3)] k show ?thesis by (simp add: spawned_init_events)
next
  case (render_fails m oc')
  note u = run_unfold [OF render_fails(5)]
  have S: "spawned (run_trace e d) = map render_argv (take m SIZES) @ [render_argv (SIZES ! m)]"
    using u by (simp add: spawned_append spawned_init_events spawned_items_ok spawned_item_fail)
  have len: "length (spawned (run_trace e d)) = Suc m"
    using render_fails(1) by (simp add: S)
  have km: "k = m"
  proof (rule ccontr)
    assume "k \<noteq> m"
    with k len have lt: "k < m" by simp
    then have "spawned (run_trace e d) ! k = render_argv (SIZES ! k)"
      using render_fails(1) by (simp add: S nth_append)
    with oc render_fails(2) lt rc show False by simp
  qed
  have Sk: "spawned (run_trace e d) ! k = render_argv (SIZES ! m)"
    using render_fails(1) by (simp add: S km nth_append)
  from oc Sk km render_fails(3) have "oc' = Exited rc" by simp
  then show ?thesis
    using u Sk km len by (simp add: child_error_Exited exit_status_Inl item_fail_def)
next
  case (package_fails oc')
  note u = run_unfold [OF package_fails(4)]
  have S: "spawned (run_trace e d) = map render_argv SIZES @ [package_argv]"
    using u by (simp add: spawned_append spawned_init_events spawned_items_ok)
  have len: "length (spawned (run_trace e d)) = Suc (length SIZES)"
    by (simp add: S)
  have km: "k = length SIZES"
  proof (rule ccontr)
    assume "k \<noteq> length SIZES"
    with k len have lt: "k < length SIZES" by simp
    then have "spawned (run_trace e d) ! k = render_argv (SIZES ! k)"
      by (simp add: S nth_append)
    with oc package_fails(1) lt rc show False by simp
  qed
  have Sk: "spawned (run_trace e d) ! k = package_argv"
    by (simp add: S km nth_append)
  from oc Sk km package_fails(2) have "oc' = Exited rc" by simp
  then show ?thesis
    using u Sk km len by (simp add: child_error_Exited exit_status_Inl)
next
  case success
  note u = run_unfold [OF success(3)]
  have S: "spawned (run_trace e d) = map render_argv SIZES @ [package_argv]"
    using u by (simp add: spawned_append spawned_init_events spawned_items_ok)
  have "child e k (spawned (run_trace e d) ! k) = Exited 0"
  proof (cases "k < length SIZES")
    case True
    then show ?thesis using success(1) by (simp add: S nth_append)
  next
    case False
    with k have "k = length SIZES" by (simp add: S)
    then show ?thesis using success(2) by (simp add: S nth_append)
  qed
  with oc rc show ?thesis by simp
qed

theorem nonzero_exit_is_fatal_witness:
  "2 < length (spawned (run_trace (fails_at 2 1) {}))
   \<and> child (fails_at 2 1) 2 (spawned (run_trace (fails_at 2 1) {}) ! 2) = Exited 1
   \<and> run_result (fails_at 2 1) {} = Inl (CalledProcessError 1 (spawned (run_trace (fails_at 2 1) {}) ! 2))
   \<and> last (run_trace (fails_at 2 1) {}) = Spawn (spawned (run_trace (fails_at 2 1) {}) ! 2)
   \<and> exit_status (run_result (fails_at 2 1) {}) \<noteq> 0"
proof -
  have h1: "2 < length (spawned (run_trace (fails_at 2 1) {}))"
    by (simp add: run_eval)
  have h2: "child (fails_at 2 1) 2 (spawned (run_trace (fails_at 2 1) {}) ! 2) = Exited 1"
    by (simp add: fails_at_def)
  have h3: "(1::int) \<noteq> 0" by simp
  from nonzero_exit_is_fatal [OF h1 h2 h3] h1 h2 show ?thesis by (simp add: exit_status_def)
qed

text \<open>
  Claim C5. The renderer commands of a run are those of an initial segment of \<^verbatim>\<open>SIZES\<close>, in
  the listed order (the \<open>j\<close>-th child process renders the \<open>j\<close>-th entry). If the render
  of an entry does not end with return code 0, that entry is the last one rendered and
  the process exit status is not 0. And the segment is as long as it can be: once the two
  directories are there, every entry is rendered whose predecessors all ended with
  return code 0, so a run without a failure renders all ten.
\<close>

theorem renders_in_order_until_failure:
  "length (renders (run_trace e d)) \<le> length SIZES
   \<and> renders (run_trace e d) = map render_argv (take (length (renders (run_trace e d))) SIZES)
   \<and> (\<forall>j<length (renders (run_trace e d)).
         child e j (render_argv (SIZES ! j)) \<noteq> Exited 0 \<longrightarrow>
           Suc j = length (renders (run_trace e d)) \<and> exit_status (run_result e d) \<noteq> 0)
   \<and> ((\<forall>p. run_result e d \<noteq> Inl (MakedirsError p)) \<longrightarrow>
        (\<forall>j<length SIZES.
           (\<forall>i<j. child e i (render_argv (SIZES ! i)) = Exited 0) \<longrightarrow>
             j < length (renders (run_trace e d))))"
proof -
  obtain m where m: "m \<le> length SIZES"
    "renders (run_trace e d) = map render_argv (take m SIZES)"
    "\<forall>j<m. child e j (render_argv (SIZES ! j)) \<noteq> Exited 0 \<longrightarrow>
           Suc j = m \<and> (\<exists>err. run_result e d = Inl err)"
    by (rule run_renders)
  from m(1,2) have len: "length (renders (run_trace e d)) = m" by simp
  have reach: "(\<forall>p. run_result e d \<noteq> Inl (MakedirsError p)) \<longrightarrow>
        (\<forall>j<length SIZES.
           (\<forall>i<j. child e i (render_argv (SIZES ! i)) = Exited 0) \<longrightarrow>
             j < length (renders (run_trace e d)))"
    using run_renders_reach [of e d] by blast
  from m have "m \<le> length SIZES
   \<and> renders (run_trace e d) = map render_argv (take m SIZES)
   \<and> (\<forall>j<m. child e j (render_argv (SIZES ! j)) \<noteq> Exited 0 \<longrightarrow>
           Suc j = m \<and> exit_status (run_result e d) \<noteq> 0)"
    by (auto simp add: exit_status_def)
  with reach show ?thesis
    unfolding len by blast
qed

theorem renders_in_order_until_failure_witness:
  "length (renders (run_trace (fails_at 2 1) {})) = 3
   \<and> renders (run_trace (fails_at 2 1) {}) = map render_argv (take 3 SIZES)
   \<and> child (fails_at 2 1) 2 (render_argv (SIZES ! 2)) \<noteq> Exited 0
   \<and> exit_status (run_result (fails_at 2 1) {}) \<noteq> 0
   \<and> run_result (fails_at 0 0) {} = Inr ()
   \<and> renders (run_trace (fails_at 0 0) {}) = map render_argv SIZES"
proof -
  have h1: "length (renders (run_trace (fails_at 2 1) {})) = 3"
    by (simp add: run_eval renders_def)
  have h2: "child (fails_at 2 1) 2 (render_argv (SIZES ! 2)) \<noteq> Exited 0"
    by (simp add: fails_at_def)
  have h3: "run_result (fails_at 0 0) {} = Inr ()"
    by (simp add: run_eval)
  have h4: "(9::nat) < length SIZES" "length SIZES = 10" by (simp_all add: SIZES_def)
  have h5: "\<forall>i<9. child (fails_at 0 0) i (render_argv (SIZES ! i)) = Exited 0"
    by (simp add: fails_at_def)
  note t = renders_in_order_until_failure [of "fails_at 0 0" "{}"]
  from t h3 h4(1) h5 have "9 < length (renders (run_trace (fails_at 0 0) {}))"
    by auto
  moreover from t have "length (renders (run_trace (fails_at 0 0) {})) \<le> length SIZES"
    by blast
  ultimately have n: "length (renders (run_trace (fails_at 0 0) {})) = length SIZES"
    using h4(2) by simp
  from t have "renders (run_trace (fails_at 0 0) {}) =
      map render_argv (take (length (renders (run_trace (fails_at 0 0) {}))) SIZES)"
    by blast
  then have a: "renders (run_trace (fails_at 0 0) {}) = map render_argv SIZES"
    unfolding n by simp
  from renders_in_order_until_failure [of "fails_at 2 1" "{}"] h1 h2
  have b: "renders (run_trace (fails_at 2 1) {}) = map render_argv (take 3 SIZES)
      \<and> exit_status (run_result (fails_at 2 1) {}) \<noteq> 0"
    by (auto elim!: allE [where x = 2])
  from h1 h2 h3 a b show ?thesis by blast
qed

text \<open>
  Claim C6. The packaging command is spawned at most once in a run. When it is spawned,
  all ten renders have ended with return code 0, and everything the run did before it is
  the two directory creations, the ten rendered items with their progress lines, and the
  line announcing the packaging: nothing inspects the staging directory in between.
\<close>

theorem package_once_after_all_renders:
  "length (filter (\<lambda>a. a = package_argv) (spawned (run_trace e d))) \<le> 1
   \<and> (package_argv \<in> set (spawned (run_trace e d)) \<longrightarrow>
        (\<forall>j<length SIZES. child e j (render_argv (SIZES ! j)) = Exited 0)
        \<and> (\<exists>post. run_trace e d =
              init_events @ concat (map item_ok SIZES)
              @ [Print creating_line, Spawn package_argv] @ post))"
proof (cases e d rule: main_cases)
  case staging_fails
  from run_unfold [OF staging_fails(3)] show ?thesis by simp
next
  case parent_fails
  from run_unfold [OF parent_fails(3)] show ?thesis by (simp add: spawned_init_events)
next
  case (render_fails m oc)
  note u = run_unfold [OF render_fails(5)]
  have S: "spawned (run_trace e d) = map render_argv (take m SIZES) @ [render_argv (SIZES ! m)]"
    using u by (simp add: spawned_append spawned_init_events spawned_items_ok spawned_item_fail)
  show ?thesis
    using render_argv_neq_package [of "SIZES ! m"] package_notin_renders [of "take m SIZES"]
    by (simp add: S filter_package_renders)
next
  case (package_fails oc)
  note u = run_unfold [OF package_fails(4)]
  have S: "spawned (run_trace e d) = map render_argv SIZES @ [package_argv]"
    using u by (simp add: spawned_append spawned_init_events spawned_items_ok)
  have F: "length (filter (\<lambda>a. a = package_argv) (spawned (run_trace e d))) \<le> 1"
    by (simp add: S filter_package_renders)
  have T: "\<exists>post. run_trace e d =
      init_events @ concat (map item_ok SIZES) @ [Print creating_line, Spawn package_argv] @ post"
    using u by simp
  from F T package_fails(1) show ?thesis by blast
next
  case success
  note u = run_unfold [OF success(3)]
  have S: "spawned (run_trace e d) = map render_argv SIZES @ [package_argv]"
    using u by (simp add: spawned_append spawned_init_events spawned_items_ok)
  have F: "length (filter (\<lambda>a. a = package_argv) (spawned (run_trace e d))) \<le> 1"
    by (simp add: S filter_package_renders)
  have T: "\<exists>post. run_trace e d =
      init_events @ concat (map item_ok SIZES) @ [Print creating_line, Spawn package_argv] @ post"
    using u by simp
  from F T success(1) show ?thesis by blast
qed

theorem package_once_after_all_renders_witness:
  "package_argv \<in> set (spawned (run_trace (fails_at 10 1) {}))
   \<and> length (filter (\<lambda>a. a = package_argv) (spawned (run_trace (fails_at 10 1) {}))) \<le> 1
   \<and> child (fails_at 10 1) 9 (render_argv (SIZES ! 9)) = Exited 0
   \<and> (\<exists>post. run_trace (fails_at 10 1) {} =
              init_events @ concat (map item_ok SIZES)
              @ [Print creating_line, Spawn package_argv] @ post)"
proof -
  have h1: "package_argv \<in> set (spawned (run_trace (fails_at 10 1) {}))"
    by (simp add: run_eval package_argv_def)
  have h2: "(9::nat) < length SIZES" by (simp add: SIZES_def)
  from package_once_after_all_renders [of "fails_at 10 1" "{}"] h1 h2 show ?thesis
    by blast
qed

text \<open>
  Claim C7. Every run begins by calling \<^verbatim>\<open>os.makedirs\<close> on the staging directory and then on
  the parent directory of the bundle path, which is \<^verbatim>\<open>Resources\<close>. Unless one of the two
  calls raises, both directories exist afterwards and nothing else has changed. When
  both exist already, neither call raises, whatever the filesystem would answer to a
  creation, and the set of directories is unchanged; in particular a run that follows a
  successful run does not fail in this step.
\<close>

theorem directories_created_idempotently:
  "dirname ICNS_OUT = ''Resources''
   \<and> (\<exists>rest. run_trace e d = Makedirs ICONSET # rest)
   \<and> ((\<forall>p. run_result e d \<noteq> Inl (MakedirsError p)) \<longrightarrow>
         take 2 (run_trace e d) = [Makedirs ICONSET, Makedirs (dirname ICNS_OUT)]
         \<and> run_dirs e d = insert (dirname ICNS_OUT) (insert ICONSET d))
   \<and> (ICONSET \<in> d \<and> dirname ICNS_OUT \<in> d \<longrightarrow>
         (\<forall>p. run_result e d \<noteq> Inl (MakedirsError p)) \<and> run_dirs e d = d)
   \<and> (run_result e d = Inr () \<longrightarrow>
         (\<forall>e' p. run_result e' (run_dirs e d) \<noteq> Inl (MakedirsError p)))"
proof -
  have c3: "(\<forall>p. run_result e d \<noteq> Inl (MakedirsError p)) \<longrightarrow>
         take 2 (run_trace e d) = [Makedirs ICONSET, Makedirs (dirname ICNS_OUT)]
         \<and> run_dirs e d = insert (dirname ICNS_OUT) (insert ICONSET d)"
    using run_without_makedirs_error [of e d] by (simp add: init_events_def)
  have c4: "ICONSET \<in> d \<and> dirname ICNS_OUT \<in> d \<longrightarrow>
         (\<forall>p. run_result e d \<noteq> Inl (MakedirsError p)) \<and> run_dirs e d = d"
    using run_with_existing_dirs [of d e] by blast
  have c5: "run_result e d = Inr () \<longrightarrow>
         (\<forall>e' p. run_result e' (run_dirs e d) \<noteq> Inl (MakedirsError p))"
  proof (intro impI allI)
    fix e' p
    assume ok: "run_result e d = Inr ()"
    then have "\<forall>p. run_result e d \<noteq> Inl (MakedirsError p)" by simp
    from run_without_makedirs_error [OF this]
    have "ICONSET \<in> run_dirs e d" "dirname ICNS_OUT \<in> run_dirs e d" by simp_all
    from run_with_existing_dirs [OF this]
    show "run_result e' (run_dirs e d) \<noteq> Inl (MakedirsError p)" by blast
  qed
  from dirname_ICNS_OUT run_starts_with_makedirs [of e d] c3 c4 c5 show ?thesis by blast
qed

theorem directories_created_idempotently_witness:
  "ICONSET \<in> {ICONSET, ''Resources''}
   \<and> dirname ICNS_OUT \<in> {ICONSET, ''Resources''}
   \<and> run_result mkdir_denied {ICONSET, ''Resources''} \<noteq> Inl (MakedirsError ICONSET)
   \<and> run_dirs mkdir_denied {ICONSET, ''Resources''} = {ICONSET, ''Resources''}
   \<and> run_result (fails_at 0 0) {} = Inr ()
   \<and> run_result mkdir_denied (run_dirs (fails_at 0 0) {}) \<noteq> Inl (MakedirsError ICONSET)"
proof -
  have h1: "ICONSET \<in> {ICONSET, ''Resources''} \<and> dirname ICNS_OUT \<in> {ICONSET, ''Resources''}"
    by (simp add: dirname_ICNS_OUT)
  have h2: "run_result (fails_at 0 0) {} = Inr ()"
    by (simp add: run_eval)
  from directories_created_idempotently [of mkdir_denied "{ICONSET, ''Resources''}"] h1
  have a: "run_result mkdir_denied {ICONSET, ''Resources''} \<noteq> Inl (MakedirsError ICONSET)
      \<and> run_dirs mkdir_denied {ICONSET, ''Resources''} = {ICONSET, ''Resources''}"
    by blast
  from directories_created_idempotently [of "fails_at 0 0" "{}"] h2
  have b: "run_result mkdir_denied (run_dirs (fails_at 0 0) {}) \<noteq> Inl (MakedirsError ICONSET)"
    by blast
  from h1 h2 a b show ?thesis by blast
qed

text \<open>
  Claim C8. For every entry whose render is called, the event just before the call is the
  print of its progress line, and when the call returns the event just after it is the
  print of \<^verbatim>\<open>OK\<close>. (The \<open>j\<close>-th item occupies positions \<open>3j + 2\<close>, \<open>3j + 3\<close> and \<open>3j + 4\<close>
  of the trace, after the two directory creations. A call that raises ends the run.) When
  \<^verbatim>\<open>main\<close> returns, all ten entries have been rendered and the last event is the print of
  the completion line, which names \<^verbatim>\<open>Resources/AppIcon.icns\<close>.
\<close>

theorem progress_lines_around_renders:
  "(\<forall>j<length (renders (run_trace e d)).
      3 * j + 3 < length (run_trace e d)
      \<and> run_trace e d ! (3 * j + 2) = Print (progress_line (SIZES ! j))
      \<and> run_trace e d ! (3 * j + 3) = Spawn (render_argv (SIZES ! j))
      \<and> (child e j (render_argv (SIZES ! j)) = Exited 0 \<longrightarrow>
            3 * j + 4 < length (run_trace e d) \<and> run_trace e d ! (3 * j + 4) = Print ok_line))
   \<and> (run_result e d = Inr () \<longrightarrow>
         length (renders (run_trace e d)) = length SIZES \<and> last (run_trace e d) = Print done_line)
   \<and> done_line = ''Done: Resources/AppIcon.icns'' @ [CHR 0x0A]"
proof (cases e d rule: main_cases)
  case staging_fails
  from run_unfold [OF staging_fails(3)] show ?thesis
    by (simp add: renders_simps done_line_text)
next
  case parent_fails
  from run_unfold [OF parent_fails(3)] show ?thesis
    by (simp add: renders_simps done_line_text)
next
  case (render_fails m oc)
  note u = run_unfold [OF render_fails(5)]
  let ?tr = "init_events @ concat (map item_ok (take m SIZES)) @ item_fail (SIZES ! m)"
  have tr: "run_trace e d = ?tr" using u by simp
  have n: "length (renders (run_trace e d)) = Suc m"
    using render_fails(1) by (simp add: tr renders_simps)
  have res: "run_result e d \<noteq> Inr ()" using u by simp
  have m: "m \<le> length SIZES" using render_fails(1) by simp
  have "3 * j + 3 < length ?tr
      \<and> ?tr ! (3 * j + 2) = Print (progress_line (SIZES ! j))
      \<and> ?tr ! (3 * j + 3) = Spawn (render_argv (SIZES ! j))
      \<and> (child e j (render_argv (SIZES ! j)) = Exited 0 \<longrightarrow>
            3 * j + 4 < length ?tr \<and> ?tr ! (3 * j + 4) = Print ok_line)"
    if "j < Suc m" for j
  proof (cases "j = m")
    case True
    with render_fails(3,4) have "child e j (render_argv (SIZES ! j)) \<noteq> Exited 0" by simp
    with failing_item_in_trace [OF render_fails(1)] True show ?thesis by simp
  next
    case False
    with that have "j < m" by simp
    from item_in_trace [OF this m, of "item_fail (SIZES ! m)"] show ?thesis by simp
  qed
  with n res show ?thesis by (simp only: tr done_line_text) simp
next
  case (package_fails oc)
  note u = run_unfold [OF package_fails(4)]
  let ?es = "[Print creating_line, Spawn package_argv]"
  let ?tr = "init_events @ concat (map item_ok SIZES) @ ?es"
  have tr: "run_trace e d = ?tr" using u by simp
  have n: "length (renders (run_trace e d)) = length SIZES"
    by (simp add: tr renders_simps)
  have res: "run_result e d \<noteq> Inr ()" using u by simp
  have "3 * j + 3 < length ?tr
      \<and> ?tr ! (3 * j + 2) = Print (progress_line (SIZES ! j))
      \<and> ?tr ! (3 * j + 3) = Spawn (render_argv (SIZES ! j))
      \<and> (child e j (render_argv (SIZES ! j)) = Exited 0 \<longrightarrow>
            3 * j + 4 < length ?tr \<and> ?tr ! (3 * j + 4) = Print ok_line)"
    if "j < length SIZES" for j
    using item_in_trace [OF that order_refl, of ?es] by simp
  with n res show ?thesis by (simp only: tr done_line_text) simp
next
  case success
  note u = run_unfold [OF success(3)]
  let ?es = "[Print creating_line, Spawn package_argv, Print done_line]"
  let ?tr = "init_events @ concat (map item_ok SIZES) @ ?es"
  have tr: "run_trace e d = ?tr" using u by simp
  have n: "length (renders (run_trace e d)) = length SIZES"
    by (simp add: tr renders_simps)
  have la: "last ?tr = Print done_line" by simp
  have "3 * j + 3 < length ?tr
      \<and> ?tr ! (3 * j + 2) = Print (progress_line (SIZES ! j))
      \<and> ?tr ! (3 * j + 3) = Spawn (render_argv (SIZES ! j))
      \<and> (child e j (render_argv (SIZES ! j)) = Exited 0 \<longrightarrow>
            3 * j + 4 < length ?tr \<and> ?tr ! (3 * j + 4) = Print ok_line)"
    if "j < length SIZES" for j
    using item_in_trace [OF that order_refl, of ?es] by simp
  with n la show ?thesis by (simp only: tr done_line_text) simp
qed

theorem progress_lines_around_renders_witness:
  "0 < length (renders (run_trace (fails_at 2 1) {}))
   \<and> child (fails_at 2 1) 0 (render_argv (SIZES ! 0)) = Exited 0
   \<and> run_trace (fails_at 2 1) {} ! 2 = Print ''  icon_16x16.png (16x16)... ''
   \<and> run_trace (fails_at 2 1) {} ! 3 = Spawn (render_argv (''icon_16x16.png'', 16))
   \<and> run_trace (fails_at 2 1) {} ! 4 = Print (''OK'' @ [CHR 0x0A])
   \<and> run_result (fails_at 0 0) {} = Inr ()
   \<and> last (run_trace (fails_at 0 0) {}) = Print (''Done: Resources/AppIcon.icns'' @ [CHR 0x0A])"
proof -
  have h1: "0 < length (renders (run_trace (fails_at 2 1) {}))"
    by (simp add: run_eval renders_def)
  have h2: "child (fails_at 2 1) 0 (render_argv (SIZES ! 0)) = Exited 0"
    by (simp add: fails_at_def)
  have h3: "run_result (fails_at 0 0) {} = Inr ()"
    by (simp add: run_eval)
  have p: "progress_line (''icon_16x16.png'', 16) = ''  icon_16x16.png (16x16)... ''"
    by (simp add: progress_line_def str_int_def str_nat.simps)
  have s: "SIZES ! 0 = (''icon_16x16.png'', 16)"
    by (simp add: SIZES_def)
  from progress_lines_around_renders [of "fails_at 2 1" "{}"] h1 h2
  have a: "run_trace (fails_at 2 1) {} ! 2 = Print (progress_line (SIZES ! 0))
      \<and> run_trace (fails_at 2 1) {} ! 3 = Spawn (render_argv (SIZES ! 0))
      \<and> run_trace (fails_at 2 1) {} ! 4 = Print ok_line"
    by (auto elim!: allE [where x = 0] simp add: numeral_2_eq_2)
  from progress_lines_around_renders [of "fails_at 0 0" "{}"] h3
  have b: "last (run_trace (fails_at 0 0) {}) = Print (''Done: Resources/AppIcon.icns'' @ [CHR 0x0A])"
    by simp
  from h1 h2 h3 a b show ?thesis
    by (simp add: p s ok_line_def)
qed

text \<open>
  Claim C9. The one thing \<^verbatim>\<open>generate_png\<close> does is to spawn \<^verbatim>\<open>/usr/bin/swift -e\<close> with the
  program text for its two arguments: whatever the environment and the world before the
  call, two calls with the same path and size issue the same argument list. So the
  renderer commands of every run are an initial segment of one fixed list.
\<close>

theorem generate_png_command_deterministic:
  "trace (fst (generate_png e1 w1 path sz))
     = trace w1 @ [Spawn [''/usr/bin/swift'', ''-e'', swift_code path sz]]
   \<and> drop (length (trace w1)) (trace (fst (generate_png e1 w1 path sz)))
     = drop (length (trace w2)) (trace (fst (generate_png e2 w2 path sz)))
   \<and> renders (run_trace e1 d1) = take (length (renders (run_trace e1 d1))) (map render_argv SIZES)"
proof -
  have g: "trace (fst (generate_png e w path sz))
     = trace w @ [Spawn [''/usr/bin/swift'', ''-e'', swift_code path sz]]" for e w
    by (simp add: generate_png_def subprocess_run_def Let_def split: outcome.split)
  obtain m where m: "m \<le> length SIZES" "renders (run_trace e1 d1) = map render_argv (take m SIZES)"
    by (rule run_renders)
  from m have "length (renders (run_trace e1 d1)) = m" by simp
  with m(2) have "renders (run_trace e1 d1) = take (length (renders (run_trace e1 d1))) (map render_argv SIZES)"
    by (simp add: take_map)
  with g [of e1 w1] g [of e2 w2] show ?thesis by simp
qed

text \<open>
  Claim C10. The ten file names of \<^verbatim>\<open>SIZES\<close> are pairwise distinct, and so are the ten
  destination paths \<^verbatim>\<open>os.path.join(ICONSET, name)\<close>, each of which is the name under the
  staging directory. The renderer commands of a run are those of an initial segment of
  \<^verbatim>\<open>SIZES\<close>; the program text of each carries the destination of its own entry in its
  \<^verbatim>\<open>fileURLWithPath\<close> call; the ten commands are pairwise distinct, and so are the
  commands a run issues and the destinations they write to. So no render of a run writes
  where an earlier one did.
\<close>

theorem filenames_and_destinations_distinct:
  "length SIZES = 10
   \<and> distinct (map fst SIZES)
   \<and> distinct (map (\<lambda>x. path_join ICONSET (fst x)) SIZES)
   \<and> renders (run_trace e d) =
       map (\<lambda>x. [''/usr/bin/swift'', ''-e'', swift_code (path_join ICONSET (fst x)) (snd x)])
         (take (length (renders (run_trace e d))) SIZES)
   \<and> map (\<lambda>x. path_join ICONSET (fst x)) SIZES = map (\<lambda>x. ICONSET @ ''/'' @ fst x) SIZES
   \<and> map render_argv SIZES =
       map (\<lambda>x. [''/usr/bin/swift'', ''-e'',
                  template_pre @ str_int (snd x) @ template_mid
                  @ (ICONSET @ ''/'' @ fst x) @ template_post]) SIZES
   \<and> map (\<lambda>argv. quoted_path (argv ! 2)) (renders (run_trace e d)) =
       map (\<lambda>x. ICONSET @ ''/'' @ fst x) (take (length (renders (run_trace e d))) SIZES)
   \<and> distinct (map render_argv SIZES)
   \<and> distinct (renders (run_trace e d))
   \<and> distinct (map (\<lambda>argv. quoted_path (argv ! 2)) (renders (run_trace e d)))"
proof -
  have a: "length SIZES = 10 \<and> distinct (map fst SIZES)"
    by (simp add: SIZES_def)
  obtain m where m: "m \<le> length SIZES" "renders (run_trace e d) = map render_argv (take m SIZES)"
    by (rule run_renders)
  from m have len: "length (renders (run_trace e d)) = m" by simp
  have b: "renders (run_trace e d) =
       map (\<lambda>x. [''/usr/bin/swift'', ''-e'', swift_code (path_join ICONSET (fst x)) (snd x)])
         (take (length (renders (run_trace e d))) SIZES)"
    unfolding len using m(2) unfolding render_argv_def .
  have under: "path_join ICONSET (fst x) = ICONSET @ ''/'' @ fst x" if "x \<in> set SIZES" for x
  proof -
    from destinations_under_ICONSET
    have "\<forall>x\<in>set SIZES. path_join ICONSET (fst x) = ICONSET @ ''/'' @ fst x"
      by simp
    with that show ?thesis by blast
  qed
  have c: "map render_argv SIZES =
       map (\<lambda>x. [''/usr/bin/swift'', ''-e'',
                  template_pre @ str_int (snd x) @ template_mid
                  @ (ICONSET @ ''/'' @ fst x) @ template_post]) SIZES"
    by (rule map_cong [OF refl]) (simp add: render_argv_template under)
  have q: "map (\<lambda>argv. quoted_path (argv ! 2)) (renders (run_trace e d))
      = take m (map (\<lambda>x. path_join ICONSET (fst x)) SIZES)"
    unfolding m(2) take_map [symmetric] quoted_paths_of_renders ..
  then have d: "map (\<lambda>argv. quoted_path (argv ! 2)) (renders (run_trace e d)) =
       map (\<lambda>x. ICONSET @ ''/'' @ fst x) (take (length (renders (run_trace e d))) SIZES)"
    unfolding len by (simp only: destinations_under_ICONSET take_map)
  have e1: "distinct (renders (run_trace e d))"
    unfolding m(2) take_map [symmetric] using distinct_render_argv by (rule distinct_take)
  have e2: "distinct (map (\<lambda>argv. quoted_path (argv ! 2)) (renders (run_trace e d)))"
    unfolding q using distinct_destinations by (rule distinct_take)
  from a distinct_destinations b destinations_under_ICONSET c d distinct_render_argv e1 e2
  show ?thesis by blast
qed

end
